theory Spec2Isabelle
  imports Main "HOL-Library.Char_ord" "HOL-Library.List_Lexorder" "HOL-Library.AList"
begin

section \<open>JavaScript strings and objects\<close>

text \<open>
  The scripts are JavaScript. A JavaScript string is modelled as a \<^typ>\<open>string\<close>
  (a list of characters), compared character by character from the left, which is how
  \<^verbatim>\<open>Array.prototype.sort()\<close> without a comparator orders strings. The string methods
  the scripts call are written out below with their behaviour at the edges
  (\<^verbatim>\<open>slice\<close> with a negative end, \<^verbatim>\<open>split\<close> of the empty string, \<^verbatim>\<open>replace\<close> with a
  string pattern, which replaces the first occurrence only).
\<close>

definition startsWith :: "string \<Rightarrow> string \<Rightarrow> bool" where
  "startsWith str p = (take (length p) str = p)"

definition endsWith :: "string \<Rightarrow> string \<Rightarrow> bool" where
  "endsWith str p = (drop (length str - length p) str = p)"

text \<open>\<^verbatim>\<open>str.slice(start)\<close> for a start that is not negative.\<close>

definition slice_from :: "nat \<Rightarrow> string \<Rightarrow> string" where
  "slice_from start str = drop start str"

text \<open>
  \<^verbatim>\<open>str.slice(start, -k)\<close> for a start that is not negative and \<open>k > 0\<close>: the end is
  \<open>max (length - k) 0\<close>, and the result is empty when the start is not before the end.
\<close>

definition slice_to_neg :: "nat \<Rightarrow> nat \<Rightarrow> string \<Rightarrow> string" where
  "slice_to_neg start k str = take ((length str - k) - start) (drop start str)"

text \<open>\<^verbatim>\<open>str.split(sep)\<close> for a separator of one character; never the empty array.\<close>

fun js_split :: "char \<Rightarrow> string \<Rightarrow> string list" where
  "js_split sep [] = [[]]"
| "js_split sep (c # cs) =
     (if c = sep then [] # js_split sep cs
      else (case js_split sep cs of
              [] \<Rightarrow> [[c]]
            | s # ss \<Rightarrow> (c # s) # ss))"

text \<open>\<^verbatim>\<open>str.replace(a, b)\<close> for one-character strings: the first occurrence only.\<close>

fun replace_first :: "char \<Rightarrow> char \<Rightarrow> string \<Rightarrow> string" where
  "replace_first a b [] = []"
| "replace_first a b (c # cs) = (if c = a then b # cs else c # replace_first a b cs)"

text \<open>
  An object used as a table is the list of its own properties in insertion order.
  \<^verbatim>\<open>Object.keys(o)\<close> is \<open>map fst o\<close>, \<^verbatim>\<open>Object.keys(o).includes(k)\<close> followed by
  \<^verbatim>\<open>o[k]\<close> is \<open>map_of o k\<close>. An object literal with computed keys assigns its
  properties one after the other: a key written twice keeps its first position and takes
  the last value. (JavaScript lists keys that are array indices first; the functions
  below only test whether a name is a key, read the value under a key, or sort the keys
  with other names, so the order of the keys does not reach any result.)
\<close>

definition object_literal :: "(string \<times> 'v) list \<Rightarrow> (string \<times> 'v) list" where
  "object_literal entries = foldl (\<lambda>obj (k, v). AList.update k v obj) [] entries"

definition object_keys :: "(string \<times> 'v) list \<Rightarrow> string list" where
  "object_keys obj = map fst obj"

text \<open>A \<^verbatim>\<open>Set\<close> of strings is the list of its members in insertion order.\<close>

definition set_add :: "string \<Rightarrow> string list \<Rightarrow> string list" where
  "set_add x s = (if x \<in> set s then s else s @ [x])"

text \<open>
  An optional argument \<^verbatim>\<open>kwargs\<close> with optional fields, read the way every function of
  the scripts reads it:
  \<^verbatim>\<open>
  let x = DEFAULT;
  if (kwargs !== undefined) { if (kwargs.x !== undefined) { x = kwargs.x; } }
  \<close>
\<close>

definition kwarg :: "'k option \<Rightarrow> ('k \<Rightarrow> 'a option) \<Rightarrow> 'a \<Rightarrow> 'a" where
  "kwarg kwargs field default_value =
     (case kwargs of
        None \<Rightarrow> default_value
      | Some kw \<Rightarrow> (case field kw of None \<Rightarrow> default_value | Some v \<Rightarrow> v))"

section \<open>Name normalizer\<close>

text \<open>
  \<^verbatim>\<open>
  function trimSlashes(str) {
    if (str.startsWith("/")) { str = str.slice(1); }
    if (str.endsWith("/")) { str = str.slice(0, -1); }
    return str;
  }
  \<close>
\<close>

definition trimSlashes :: "string \<Rightarrow> string" where
  "trimSlashes str =
     (let str = (if startsWith str ''/'' then slice_from 1 str else str);
          str = (if endsWith str ''/'' then slice_to_neg 0 1 str else str)
      in str)"

section \<open>Regular matcher\<close>

text \<open>
  The comparison loop \<^verbatim>\<open>for (i = 0; i < view_name_split.length; i++)\<close> of
  \<^verbatim>\<open>regularViewMatchesTags\<close>: it stops at the first position where the segments differ.
  A position past the end of the tag's segments reads \<^verbatim>\<open>undefined\<close>, which differs from
  every string.
\<close>

fun segments_match :: "string list \<Rightarrow> string list \<Rightarrow> bool" where
  "segments_match [] ts = True"
| "segments_match (v # vs) [] = False"
| "segments_match (v # vs) (t # ts) = (if v \<noteq> t then False else segments_match vs ts)"

text \<open>The loop over the tags, for the view name already reduced to its last path segment.\<close>

fun regular_tags_loop :: "string \<Rightarrow> string list \<Rightarrow> bool" where
  "regular_tags_loop view_name [] = False"
| "regular_tags_loop view_name (tag_name # rest) =
     (if CHR '' '' \<in> set view_name then
        (let view_name_split = js_split (CHR '' '') view_name;
             tag_name_split = js_split (CHR ''/'') tag_name
         in if length view_name_split > length tag_name_split
            then regular_tags_loop view_name rest
            else if segments_match view_name_split tag_name_split then True
            else regular_tags_loop view_name rest)
      else
        (if hd (js_split (CHR ''/'') tag_name) = view_name then True
         else regular_tags_loop view_name rest))"

definition regularViewMatchesTags :: "string \<Rightarrow> string list \<Rightarrow> bool" where
  "regularViewMatchesTags view_name tag_names =
     (let view_name = trimSlashes view_name;
          split_view_name = js_split (CHR ''/'') view_name;
          view_name = last split_view_name
      in regular_tags_loop view_name tag_names)"

section \<open>Configuration and the host application\<close>

text \<open>
  A custom view is a predicate on the tag names of a thing, a custom tag is a predicate on
  a view name; a table of them is an object whose keys are the names.
\<close>

type_synonym custom_views = "(string \<times> (string list \<Rightarrow> bool)) list"
type_synonym custom_tags = "(string \<times> (string \<Rightarrow> bool)) list"

text \<open>The constants that \<^verbatim>\<open>core.js\<close> imports from \<^verbatim>\<open>user.js\<close> and that the matching
  and enumeration code reads.\<close>

record user_config =
  ALL_NAME :: string
  UNTAGGED_NAME :: string
  OTHERS_NAME :: string
  ARCHIVE_NAME :: string
  VIEWS_PATH :: string
  THINGS_PATH :: string
  CALCULATE_SUBFOLDER_UNINITIATED :: bool
  CUSTOM_VIEWS :: custom_views
  CUSTOM_TAGS :: custom_tags

text \<open>The values that \<^verbatim>\<open>user.js\<close> ships with.\<close>

definition default_user :: user_config where
  "default_user =
     \<lparr> ALL_NAME = ''All'', UNTAGGED_NAME = ''Untagged'', OTHERS_NAME = ''Others'',
       ARCHIVE_NAME = ''Archive'', VIEWS_PATH = ''Views'', THINGS_PATH = ''Things'',
       CALCULATE_SUBFOLDER_UNINITIATED = True, CUSTOM_VIEWS = [], CUSTOM_TAGS = [] \<rparr>"

text \<open>
  What the scripts read from the host application \<^verbatim>\<open>app\<close>: the files of the vault
  (\<^verbatim>\<open>app.vault.getFiles()\<close>), each with its path, the path of its parent folder and the
  \<^verbatim>\<open>tags\<close> of its frontmatter (\<open>None\<close> when the file has no frontmatter or the
  frontmatter has no tags), and the paths of the cached files
  (\<^verbatim>\<open>app.metadataCache.getCachedFiles()\<close>).
\<close>

record tfile =
  file_path :: string
  parent_path :: string
  frontmatter_tags :: "string list option"

record obsidian =
  vault_files :: "tfile list"
  cached_files :: "string list"

section \<open>Initiated views\<close>

text \<open>
  \<^verbatim>\<open>
  function getInitiatedViewNames(views_path = VIEWS_PATH) {
    views_path = trimSlashes(views_path);
    const file_paths = app.metadataCache.getCachedFiles();
    const view_paths = file_paths.filter((path) => path.startsWith(views_path));
    const views_path_length = views_path.length + 1;
    const view_names = view_paths.map((path) => path.slice(views_path_length, -3));
    return view_names;
  }
  \<close>
\<close>

definition getInitiatedViewNames :: "user_config \<Rightarrow> obsidian \<Rightarrow> string option \<Rightarrow> string list" where
  "getInitiatedViewNames cfg app views_path_arg =
     (let views_path = (case views_path_arg of None \<Rightarrow> VIEWS_PATH cfg | Some p \<Rightarrow> p);
          views_path = trimSlashes views_path;
          file_paths = cached_files app;
          view_paths = filter (\<lambda>path. startsWith path views_path) file_paths;
          views_path_length = length views_path + 1;
          view_names = map (\<lambda>path. slice_to_neg views_path_length 3 path) view_paths
      in view_names)"

section \<open>Custom rule registry\<close>

text \<open>
  The loop of the \<^verbatim>\<open>Others\<close> view over the initiated view names
  (\<^verbatim>\<open>src/unnamed/part_003\<close>, the latest revision of \<^verbatim>\<open>core.js\<close>):
  \<^verbatim>\<open>
  for (const view_name of getInitiatedViewNames()) {
    if (core_custom_view_names.includes(view_name)) { continue; }
    if ((user_custom_view_names.includes(view_name) && CUSTOM_VIEWS[view_name](tag_names))
        || regularViewMatchesTags(view_name, tag_names)) { return false; }
  }
  return true;
  \<close>
\<close>

fun others_loop :: "string list \<Rightarrow> custom_views \<Rightarrow> string list \<Rightarrow> string list \<Rightarrow> bool" where
  "others_loop core_view_names user_views tag_names [] = True"
| "others_loop core_view_names user_views tag_names (view_name # rest) =
     (if view_name \<in> set core_view_names
      then others_loop core_view_names user_views tag_names rest
      else if (case map_of user_views view_name of
                 Some predicate \<Rightarrow> predicate tag_names
               | None \<Rightarrow> False)
              \<or> regularViewMatchesTags view_name tag_names
      then False
      else others_loop core_view_names user_views tag_names rest)"

text \<open>\<^verbatim>\<open>Object.keys(CORE_CUSTOM_VIEWS)\<close>: the keys of the object literal
  \<^verbatim>\<open>{ [ALL_NAME]: .., [UNTAGGED_NAME]: .., [OTHERS_NAME]: .. }\<close>.\<close>

definition core_custom_view_names :: "user_config \<Rightarrow> string list" where
  "core_custom_view_names cfg =
     object_keys (object_literal
       [(ALL_NAME cfg, ()), (UNTAGGED_NAME cfg, ()), (OTHERS_NAME cfg, ())])"

definition Others :: "user_config \<Rightarrow> obsidian \<Rightarrow> string list \<Rightarrow> bool" where
  "Others cfg app tag_names =
     others_loop (core_custom_view_names cfg) (CUSTOM_VIEWS cfg) tag_names
       (getInitiatedViewNames cfg app None)"

definition CORE_CUSTOM_VIEWS :: "user_config \<Rightarrow> obsidian \<Rightarrow> custom_views" where
  "CORE_CUSTOM_VIEWS cfg app =
     object_literal
       [(ALL_NAME cfg, \<lambda>_. True),
        (UNTAGGED_NAME cfg, \<lambda>tag_names. length tag_names = 0),
        (OTHERS_NAME cfg, Others cfg app)]"

definition CORE_CUSTOM_TAGS :: "user_config \<Rightarrow> custom_tags" where
  "CORE_CUSTOM_TAGS cfg =
     object_literal [(ARCHIVE_NAME cfg, \<lambda>view_name. view_name = ''Archive'')]"

text \<open>
  The earlier revision of the \<^verbatim>\<open>Others\<close> loop (\<^verbatim>\<open>src/config/core.js\<close>, lines 68 to 85)
  tests only that the initiated name is a key of \<^verbatim>\<open>CUSTOM_VIEWS\<close>:
  \<^verbatim>\<open>if (user_custom_view_names.includes(view_name) || regularViewMatchesTags(..))\<close>.
\<close>

fun others_loop_earlier ::
  "string list \<Rightarrow> custom_views \<Rightarrow> string list \<Rightarrow> string list \<Rightarrow> bool" where
  "others_loop_earlier core_view_names user_views tag_names [] = True"
| "others_loop_earlier core_view_names user_views tag_names (view_name # rest) =
     (if view_name \<in> set core_view_names
      then others_loop_earlier core_view_names user_views tag_names rest
      else if view_name \<in> set (object_keys user_views)
              \<or> regularViewMatchesTags view_name tag_names
      then False
      else others_loop_earlier core_view_names user_views tag_names rest)"

section \<open>View resolver\<close>

text \<open>
  The tag-rule pass of \<^verbatim>\<open>viewMatchesTags\<close>; \<open>False\<close> is the early \<^verbatim>\<open>return false\<close>,
  \<open>True\<close> means that the loop ran to its end.
  \<^verbatim>\<open>
  for (const tag_name of tag_names) {
    if (user_custom_tag_names.includes(tag_name)) {
      if (!custom_tags[tag_name](view_name)) { return false; }
    } else if (core_custom_tag_names.includes(tag_name)) {
      if (!CORE_CUSTOM_TAGS[tag_name](view_name)) { return false; }
    }
  }
  \<close>
\<close>

fun tag_rules_loop :: "custom_tags \<Rightarrow> custom_tags \<Rightarrow> string \<Rightarrow> string list \<Rightarrow> bool" where
  "tag_rules_loop custom_tags core_tags view_name [] = True"
| "tag_rules_loop custom_tags core_tags view_name (tag_name # rest) =
     (case map_of custom_tags tag_name of
        Some rule \<Rightarrow>
          (if \<not> rule view_name then False
           else tag_rules_loop custom_tags core_tags view_name rest)
      | None \<Rightarrow>
          (case map_of core_tags tag_name of
             Some rule \<Rightarrow>
               (if \<not> rule view_name then False
                else tag_rules_loop custom_tags core_tags view_name rest)
           | None \<Rightarrow> tag_rules_loop custom_tags core_tags view_name rest))"

text \<open>
  The variations of the view name that can name a custom view:
  \<^verbatim>\<open>
  let matching_view_names = [];
  matching_view_names.push("/" + view_name);
  const view_name_split = view_name.split("/");
  matching_view_names.unshift(view_name_split.pop());
  while (view_name_split.length > 0) {
    matching_view_names.unshift(view_name_split.pop() + "/" + matching_view_names[0]);
  }
  \<close>
  \<^verbatim>\<open>pop\<close> takes the last element; \<^verbatim>\<open>matching_view_names[0]\<close> of an empty array would be
  \<^verbatim>\<open>undefined\<close>, which \<^verbatim>\<open>+\<close> writes as the string "undefined".
\<close>

function variations_loop :: "string list \<Rightarrow> string list \<Rightarrow> string list" where
  "variations_loop view_name_split matching_view_names =
     (if length view_name_split > 0
      then variations_loop (butlast view_name_split)
             ((last view_name_split @ ''/'' @
                (case matching_view_names of [] \<Rightarrow> ''undefined'' | m # _ \<Rightarrow> m))
              # matching_view_names)
      else matching_view_names)"
  by pat_completeness auto
termination
  by (relation "measure (\<lambda>(view_name_split, matching_view_names). length view_name_split)") auto

declare variations_loop.simps [simp del]

definition matching_view_names :: "string \<Rightarrow> string list" where
  "matching_view_names view_name =
     (let matching = [] @ [''/'' @ view_name];
          view_name_split = js_split (CHR ''/'') view_name;
          matching = last view_name_split # matching;
          view_name_split = butlast view_name_split
      in variations_loop view_name_split matching)"

text \<open>
  The custom-view pass; \<open>None\<close> means that the loop ran to its end without a return.
  \<^verbatim>\<open>
  for (const matching_view_name of matching_view_names) {
    if (user_custom_view_names.includes(matching_view_name)) {
      return custom_views[matching_view_name](tag_names);
    } else if (core_custom_view_names.includes(matching_view_name)) {
      return CORE_CUSTOM_VIEWS[matching_view_name](tag_names);
    }
  }
  \<close>
\<close>

fun custom_view_loop ::
  "custom_views \<Rightarrow> custom_views \<Rightarrow> string list \<Rightarrow> string list \<Rightarrow> bool option" where
  "custom_view_loop custom_views core_views tag_names [] = None"
| "custom_view_loop custom_views core_views tag_names (matching_view_name # rest) =
     (case map_of custom_views matching_view_name of
        Some predicate \<Rightarrow> Some (predicate tag_names)
      | None \<Rightarrow>
          (case map_of core_views matching_view_name of
             Some predicate \<Rightarrow> Some (predicate tag_names)
           | None \<Rightarrow> custom_view_loop custom_views core_views tag_names rest))"

text \<open>The optional third argument of \<^verbatim>\<open>viewMatchesTags\<close>.\<close>

record match_kwargs =
  kw_custom_views :: "custom_views option"
  kw_custom_tags :: "custom_tags option"

text \<open>
  \<^verbatim>\<open>viewMatchesTags(view_name, tag_names, kwargs)\<close>. A \<^verbatim>\<open>null\<close> or missing
  \<^verbatim>\<open>tag_names\<close> is \<open>None\<close>, a missing \<^verbatim>\<open>kwargs\<close> is \<open>None\<close>.
\<close>

definition viewMatchesTags ::
  "user_config \<Rightarrow> obsidian \<Rightarrow> string \<Rightarrow> string list option \<Rightarrow> match_kwargs option \<Rightarrow> bool" where
  "viewMatchesTags cfg app view_name tag_names_arg kwargs =
     (let custom_views = kwarg kwargs kw_custom_views (CUSTOM_VIEWS cfg);
          custom_tags = kwarg kwargs kw_custom_tags (CUSTOM_TAGS cfg);
          tag_names = (case tag_names_arg of None \<Rightarrow> [] | Some t \<Rightarrow> t);
          view_name = trimSlashes view_name
      in if \<not> tag_rules_loop custom_tags (CORE_CUSTOM_TAGS cfg) view_name tag_names then False
         else (case custom_view_loop custom_views (CORE_CUSTOM_VIEWS cfg app) tag_names
                      (matching_view_names view_name) of
                 Some result \<Rightarrow> result
               | None \<Rightarrow> regularViewMatchesTags view_name tag_names))"

section \<open>View enumerator\<close>

text \<open>
  \<^verbatim>\<open>
  function getExistingTagNames(things_path = THINGS_PATH) {
    things_path = trimSlashes(things_path);
    const files = app.vault.getFiles();
    const thing_files = files.filter((file) => file.path.startsWith(things_path));
    let tag_names = new Set();
    for (const file of thing_files) {
      const frontmatter = app.metadataCache.getFileCache(file).frontmatter;
      if (frontmatter && frontmatter.tags && frontmatter.tags.length > 0) {
        tag_names.add(...frontmatter.tags);
      }
    }
    return [...tag_names];
  }
  \<close>
  \<^verbatim>\<open>Set.prototype.add\<close> takes one argument, so \<^verbatim>\<open>add(...tags)\<close> adds the first tag of
  the file.
\<close>

fun existing_tags_loop :: "tfile list \<Rightarrow> string list \<Rightarrow> string list" where
  "existing_tags_loop [] tag_names = tag_names"
| "existing_tags_loop (file # rest) tag_names =
     (case frontmatter_tags file of
        None \<Rightarrow> existing_tags_loop rest tag_names
      | Some tags \<Rightarrow>
          (case tags of
             [] \<Rightarrow> existing_tags_loop rest tag_names
           | first_tag # _ \<Rightarrow> existing_tags_loop rest (set_add first_tag tag_names)))"

definition getExistingTagNames :: "user_config \<Rightarrow> obsidian \<Rightarrow> string option \<Rightarrow> string list" where
  "getExistingTagNames cfg app things_path_arg =
     (let things_path = (case things_path_arg of None \<Rightarrow> THINGS_PATH cfg | Some p \<Rightarrow> p);
          things_path = trimSlashes things_path;
          files = vault_files app;
          thing_files = filter (\<lambda>file. startsWith (file_path file) things_path) files
      in existing_tags_loop thing_files [])"

text \<open>
  The subfolder derivation of \<^verbatim>\<open>getAllViews\<close>, innermost loop first:
  \<^verbatim>\<open>
  for (const file of thing_subfolder_files) {
    const frontmatter = app.metadataCache.getFileCache(file).frontmatter;
    if (!frontmatter || !frontmatter.tags || !frontmatter.tags.length > 0) { continue; }
    const tags = frontmatter.tags.map((name) => name.replace("/", " "));
    const subfolders_array = file.parent.path.slice(things_path_length).split("/");
    let full_subfolder = "";
    for (const subfolder of subfolders_array) {
      full_subfolder += subfolder + "/";
      for (const tag of tags) { existing_subfolder_tag_names.add(full_subfolder + tag); }
    }
  }
  \<close>
  \<^verbatim>\<open>!frontmatter.tags.length > 0\<close> compares the negated length with 0: it holds exactly
  when the length is 0.
\<close>

fun add_tags_loop :: "string \<Rightarrow> string list \<Rightarrow> string list \<Rightarrow> string list" where
  "add_tags_loop full_subfolder [] names = names"
| "add_tags_loop full_subfolder (tag # rest) names =
     add_tags_loop full_subfolder rest (set_add (full_subfolder @ tag) names)"

fun subfolders_loop :: "string list \<Rightarrow> string \<Rightarrow> string list \<Rightarrow> string list \<Rightarrow> string list" where
  "subfolders_loop tags full_subfolder [] names = names"
| "subfolders_loop tags full_subfolder (subfolder # rest) names =
     (let full_subfolder = full_subfolder @ subfolder @ ''/''
      in subfolders_loop tags full_subfolder rest (add_tags_loop full_subfolder tags names))"

fun subfolder_files_loop :: "nat \<Rightarrow> tfile list \<Rightarrow> string list \<Rightarrow> string list" where
  "subfolder_files_loop things_path_length [] names = names"
| "subfolder_files_loop things_path_length (file # rest) names =
     (case frontmatter_tags file of
        None \<Rightarrow> subfolder_files_loop things_path_length rest names
      | Some file_tags \<Rightarrow>
          (if length file_tags = 0 then subfolder_files_loop things_path_length rest names
           else
             (let tags = map (replace_first (CHR ''/'') (CHR '' '')) file_tags;
                  subfolders_array =
                    js_split (CHR ''/'') (slice_from things_path_length (parent_path file))
              in subfolder_files_loop things_path_length rest
                   (subfolders_loop tags [] subfolders_array names))))"

text \<open>
  The files are those whose parent folder path starts with \<open>folder_path\<close> and a "/".
  The latest revision (\<^verbatim>\<open>src/unnamed/part_003\<close>, line 862) passes \<^verbatim>\<open>things_path\<close> here;
  the earlier one (\<^verbatim>\<open>src/config/core.js\<close>, line 582) passed \<^verbatim>\<open>views_path\<close>.
\<close>

definition existing_subfolder_tag_names :: "string \<Rightarrow> string \<Rightarrow> obsidian \<Rightarrow> string list" where
  "existing_subfolder_tag_names folder_path things_path app =
     (let files = vault_files app;
          thing_subfolder_files =
            filter (\<lambda>file. startsWith (parent_path file) (folder_path @ ''/'')) files;
          things_path_length = length things_path + 1
      in subfolder_files_loop things_path_length thing_subfolder_files [])"

text \<open>The value of \<^verbatim>\<open>existing_tag_names\<close> when the arrays of candidates are put
  together, for the trimmed \<^verbatim>\<open>things_path\<close>.\<close>

definition existing_tag_names :: "user_config \<Rightarrow> obsidian \<Rightarrow> bool \<Rightarrow> string \<Rightarrow> string list" where
  "existing_tag_names cfg app calculate_subfolder_uninitiated things_path =
     (let existing = getExistingTagNames cfg app (Some things_path);
          existing = map (replace_first (CHR ''/'') (CHR '' '')) existing
      in if calculate_subfolder_uninitiated
         then existing @ existing_subfolder_tag_names things_path things_path app
         else existing)"

text \<open>
  \<^verbatim>\<open>
  for (const array of possible_uninitiated_view_name_arrays) {
    for (const name of array) {
      if (!uninitiated_view_names.includes(name) && !initiated_view_names.includes(name)) {
        uninitiated_view_names.push(name);
      }
    }
  }
  \<close>
\<close>

fun push_names_loop :: "string list \<Rightarrow> string list \<Rightarrow> string list \<Rightarrow> string list" where
  "push_names_loop initiated_view_names [] uninitiated_view_names = uninitiated_view_names"
| "push_names_loop initiated_view_names (name # rest) uninitiated_view_names =
     push_names_loop initiated_view_names rest
       (if name \<notin> set uninitiated_view_names \<and> name \<notin> set initiated_view_names
        then uninitiated_view_names @ [name]
        else uninitiated_view_names)"

fun push_arrays_loop :: "string list \<Rightarrow> string list list \<Rightarrow> string list \<Rightarrow> string list" where
  "push_arrays_loop initiated_view_names [] uninitiated_view_names = uninitiated_view_names"
| "push_arrays_loop initiated_view_names (array # rest) uninitiated_view_names =
     push_arrays_loop initiated_view_names rest
       (push_names_loop initiated_view_names array uninitiated_view_names)"

text \<open>The optional argument of \<^verbatim>\<open>getAllViews\<close> and its result.\<close>

record views_kwargs =
  av_calculate_subfolder_uninitiated :: "bool option"
  av_views_path :: "string option"
  av_things_path :: "string option"
  av_custom_views :: "custom_views option"
  av_custom_tags :: "custom_tags option"

record all_views =
  initiated :: "string list"
  uninitiated :: "string list"

text \<open>The array of arrays \<^verbatim>\<open>possible_uninitiated_view_name_arrays\<close>.\<close>

definition possible_uninitiated_view_name_arrays ::
  "user_config \<Rightarrow> obsidian \<Rightarrow> bool \<Rightarrow> string \<Rightarrow> custom_views \<Rightarrow> custom_tags \<Rightarrow> string list list" where
  "possible_uninitiated_view_name_arrays cfg app calculate things_path custom_views custom_tags =
     (let user_custom_view_names = object_keys custom_views;
          core_view_names = object_keys (CORE_CUSTOM_VIEWS cfg app);
          user_custom_tag_names =
            map (replace_first (CHR ''/'') (CHR '' '')) (object_keys custom_tags);
          core_custom_tag_names =
            map (replace_first (CHR ''/'') (CHR '' '')) (object_keys (CORE_CUSTOM_TAGS cfg))
      in [existing_tag_names cfg app calculate things_path,
          user_custom_view_names, core_view_names,
          user_custom_tag_names, core_custom_tag_names])"

definition getAllViews :: "user_config \<Rightarrow> obsidian \<Rightarrow> views_kwargs option \<Rightarrow> all_views" where
  "getAllViews cfg app kwargs =
     (let calculate_subfolder_uninitiated =
            kwarg kwargs av_calculate_subfolder_uninitiated (CALCULATE_SUBFOLDER_UNINITIATED cfg);
          views_path = kwarg kwargs av_views_path (VIEWS_PATH cfg);
          things_path = kwarg kwargs av_things_path (THINGS_PATH cfg);
          custom_views = kwarg kwargs av_custom_views (CUSTOM_VIEWS cfg);
          custom_tags = kwarg kwargs av_custom_tags (CUSTOM_TAGS cfg);
          views_path = trimSlashes views_path;
          things_path = trimSlashes things_path;
          initiated_view_names = sort (getInitiatedViewNames cfg app (Some views_path));
          arrays = possible_uninitiated_view_name_arrays cfg app
                     calculate_subfolder_uninitiated things_path custom_views custom_tags;
          uninitiated_view_names = push_arrays_loop initiated_view_names arrays [];
          uninitiated_view_names = sort uninitiated_view_names
      in \<lparr> initiated = initiated_view_names, uninitiated = uninitiated_view_names \<rparr>)"

section \<open>The words of the specification\<close>

text \<open>
  The search order of the view-rule lookup as the specification words it: for the
  segments \<open>s1 .. sN\<close> of the name, the full name, the suffix starting at \<open>s2\<close>, and so
  on down to the leaf \<open>sN\<close>, each joined with "/", then "/" followed by the full name.
\<close>

fun join_slash :: "string list \<Rightarrow> string" where
  "join_slash [] = []"
| "join_slash [s] = s"
| "join_slash (s # t # ts) = s @ ''/'' @ join_slash (t # ts)"

fun segment_suffixes :: "string list \<Rightarrow> string list list" where
  "segment_suffixes [] = []"
| "segment_suffixes (s # ss) = (s # ss) # segment_suffixes ss"

definition spec_search_order :: "string \<Rightarrow> string list" where
  "spec_search_order view_name =
     map join_slash (segment_suffixes (js_split (CHR ''/'') view_name)) @ [''/'' @ view_name]"

text \<open>The first variant of the list that is a key of either table, and the rule found
  there, the user table first.\<close>

definition spec_resolve_view_rule ::
  "custom_views \<Rightarrow> custom_views \<Rightarrow> string list \<Rightarrow> (string list \<Rightarrow> bool) option" where
  "spec_resolve_view_rule user_table core_table variants =
     (case find (\<lambda>v. v \<in> set (object_keys user_table) \<or> v \<in> set (object_keys core_table))
             variants of
        None \<Rightarrow> None
      | Some v \<Rightarrow> (if v \<in> set (object_keys user_table) then map_of user_table v
                   else map_of core_table v))"

text \<open>The tag rule of a tag: the user table first, then the built-in table.\<close>

definition resolveTagRule :: "custom_tags \<Rightarrow> custom_tags \<Rightarrow> string \<Rightarrow> (string \<Rightarrow> bool) option" where
  "resolveTagRule user_table core_table tag =
     (case map_of user_table tag of Some rule \<Rightarrow> Some rule | None \<Rightarrow> map_of core_table tag)"

text \<open>A user-defined view claims a thing when its name is a key of the user table and
  its own predicate holds on the tags of the thing.\<close>

definition user_view_claims :: "custom_views \<Rightarrow> string \<Rightarrow> string list \<Rightarrow> bool" where
  "user_view_claims user_table view_name tag_names =
     (case map_of user_table view_name of
        Some predicate \<Rightarrow> predicate tag_names
      | None \<Rightarrow> False)"

section \<open>Example rules and vaults\<close>

text \<open>A custom tag rule that allows a thing only in views whose name is not anchored.\<close>

definition not_anchored :: "string \<Rightarrow> bool" where
  "not_anchored view_name = (\<not> startsWith view_name ''/'')"

text \<open>A custom view that shows the things with exactly two tags.\<close>

definition two_tags :: "string list \<Rightarrow> bool" where
  "two_tags tag_names = (length tag_names = 2)"

definition empty_vault :: obsidian where
  "empty_vault = \<lparr> vault_files = [], cached_files = [] \<rparr>"

text \<open>A custom tag rule that allows a thing only in the view "W".\<close>

definition only_view_W :: "string \<Rightarrow> bool" where
  "only_view_W view_name = (view_name = ''W'')"

text \<open>A custom view that shows every thing.\<close>

definition every_thing :: "string list \<Rightarrow> bool" where
  "every_thing tag_names = True"

text \<open>A configuration with the one user-defined view "u", and a vault with a view file
  for it and one for the built-in view "All".\<close>

definition user_with_view_u :: user_config where
  "user_with_view_u = default_user \<lparr> CUSTOM_VIEWS := [(''u'', two_tags)] \<rparr>"

definition vault_with_view_u :: obsidian where
  "vault_with_view_u = \<lparr> vault_files = [], cached_files = [''Views/u.md'', ''Views/All.md''] \<rparr>"

text \<open>A vault with one thing in the subfolder "a/b" of the things root, tagged "x" and
  "p/q", one thing in the things root tagged "proj/cli", and one view file.\<close>

definition vault_with_subfolders :: obsidian where
  "vault_with_subfolders =
     \<lparr> vault_files =
         [\<lparr> file_path = ''Things/a/b/n.md'', parent_path = ''Things/a/b'',
            frontmatter_tags = Some [''x'', ''p/q''] \<rparr>,
          \<lparr> file_path = ''Things/m.md'', parent_path = ''Things'',
            frontmatter_tags = Some [''proj/cli''] \<rparr>,
          \<lparr> file_path = ''Views/proj web.md'', parent_path = ''Views'',
            frontmatter_tags = None \<rparr>],
       cached_files = [''Things/a/b/n.md'', ''Things/m.md'', ''Views/proj web.md''] \<rparr>"

text \<open>A vault with one thing in the subfolder "a" of the things root, tagged "p/q/r".\<close>

definition vault_with_nested_tag :: obsidian where
  "vault_with_nested_tag =
     \<lparr> vault_files =
         [\<lparr> file_path = ''Things/a/n.md'', parent_path = ''Things/a'',
            frontmatter_tags = Some [''p/q/r''] \<rparr>],
       cached_files = [''Things/a/n.md''] \<rparr>"

section \<open>Properties of the name normalizer\<close>

lemma trimSlashes_fixed:
  "\<not> startsWith y ''/'' \<Longrightarrow> \<not> endsWith y ''/'' \<Longrightarrow> trimSlashes y = y"
  by (simp add: trimSlashes_def)

lemma trimSlashes_shorter:
  "startsWith y ''/'' \<or> endsWith y ''/'' \<Longrightarrow> length (trimSlashes y) < length y"
  by (cases y) (auto simp add: trimSlashes_def startsWith_def endsWith_def slice_from_def
      slice_to_neg_def Let_def)

lemma trimSlashes_both: "trimSlashes (''/'' @ y @ ''/'') = y"
  by (simp add: trimSlashes_def startsWith_def endsWith_def slice_from_def slice_to_neg_def)

lemma trimSlashes_leading: "\<not> endsWith y ''/'' \<Longrightarrow> trimSlashes (''/'' @ y) = y"
  by (simp add: trimSlashes_def startsWith_def endsWith_def slice_from_def slice_to_neg_def)

lemma trimSlashes_trailing: "\<not> startsWith y ''/'' \<Longrightarrow> trimSlashes (y @ ''/'') = y"
  by (cases y)
     (simp_all add: trimSlashes_def startsWith_def endsWith_def slice_from_def slice_to_neg_def)

lemma trimSlashes_idempotent_iff:
  "trimSlashes (trimSlashes x) = trimSlashes x \<longleftrightarrow>
     \<not> startsWith (trimSlashes x) ''/'' \<and> \<not> endsWith (trimSlashes x) ''/''"
  using trimSlashes_shorter [of "trimSlashes x"] trimSlashes_fixed [of "trimSlashes x"]
  by auto

lemma trimSlashes_three_slashes: "trimSlashes ''///'' = ''/''"
  by (simp add: trimSlashes_def startsWith_def endsWith_def slice_from_def slice_to_neg_def)

lemma trimSlashes_one_slash: "trimSlashes ''/'' = []"
  by (simp add: trimSlashes_def startsWith_def endsWith_def slice_from_def slice_to_neg_def)

text \<open>
  Claim C4, as the code has it: \<^verbatim>\<open>trimSlashes\<close> strips one leading "/" and one trailing
  "/" when present, and no more: a string between one "/" on each side comes back as it
  is, whatever it starts or ends with. \<^verbatim>\<open>trimSlashes("/a/b/")\<close> is "a/b" and
  \<^verbatim>\<open>trimSlashes("a/b")\<close> is "a/b". Trimming a second time changes nothing exactly when
  the first result neither starts nor ends with "/".
\<close>

theorem trimSlashes_strips_once:
  "trimSlashes (''/'' @ y @ ''/'') = y
   \<and> (\<not> endsWith y ''/'' \<longrightarrow> trimSlashes (''/'' @ y) = y)
   \<and> (\<not> startsWith y ''/'' \<longrightarrow> trimSlashes (y @ ''/'') = y)
   \<and> (\<not> startsWith y ''/'' \<and> \<not> endsWith y ''/'' \<longrightarrow> trimSlashes y = y)
   \<and> (trimSlashes (trimSlashes x) = trimSlashes x \<longleftrightarrow>
        \<not> startsWith (trimSlashes x) ''/'' \<and> \<not> endsWith (trimSlashes x) ''/'')
   \<and> trimSlashes ''/a/b/'' = ''a/b''
   \<and> trimSlashes ''a/b'' = ''a/b''"
proof -
  have "trimSlashes ''/a/b/'' = ''a/b''"
    using trimSlashes_both [of "''a/b''"] by simp
  moreover have "trimSlashes ''a/b'' = ''a/b''"
    by (rule trimSlashes_fixed) (simp_all add: startsWith_def endsWith_def)
  ultimately show ?thesis
    using trimSlashes_both [of y] trimSlashes_leading [of y] trimSlashes_trailing [of y]
      trimSlashes_fixed [of y] trimSlashes_idempotent_iff [of x]
    by blast
qed

theorem trimSlashes_strips_once_witness:
  "\<not> startsWith ''a/b'' ''/'' \<and> \<not> endsWith ''a/b'' ''/''
   \<and> trimSlashes ''/a/b'' = ''a/b'' \<and> trimSlashes ''a/b/'' = ''a/b''
   \<and> trimSlashes (trimSlashes ''/a/b/'') = trimSlashes ''/a/b/''"
proof -
  have s: "\<not> startsWith ''a/b'' ''/''" and e: "\<not> endsWith ''a/b'' ''/''"
    by (simp_all add: startsWith_def endsWith_def)
  show ?thesis
    using s e trimSlashes_strips_once [of "''a/b''" "''/a/b/''"] by simp
qed

text \<open>Claim C4 as stated fails: on "///" the second trim strips one more "/".\<close>

theorem trimSlashes_not_idempotent:
  "trimSlashes (trimSlashes ''///'') \<noteq> trimSlashes ''///''"
  by (simp add: trimSlashes_three_slashes trimSlashes_one_slash)

section \<open>Properties of the regular matcher\<close>

lemma regularViewMatchesTags_nested_true: "regularViewMatchesTags ''a b'' [''a/b/c'']"
  by (simp add: regularViewMatchesTags_def trimSlashes_def startsWith_def endsWith_def)

lemma regularViewMatchesTags_nested_false: "\<not> regularViewMatchesTags ''a b'' [''a/x'']"
  by (simp add: regularViewMatchesTags_def trimSlashes_def startsWith_def endsWith_def)

lemma regularViewMatchesTags_flat_true: "regularViewMatchesTags ''x'' [''x/y'']"
  by (simp add: regularViewMatchesTags_def trimSlashes_def startsWith_def endsWith_def)

lemma regularViewMatchesTags_no_tags: "\<not> regularViewMatchesTags view_name []"
  by (simp add: regularViewMatchesTags_def)

text \<open>
  Claim C9: \<^verbatim>\<open>regularViewMatchesTags("a b", ["a/b/c"])\<close> is true,
  \<^verbatim>\<open>regularViewMatchesTags("a b", ["a/x"])\<close> is false,
  \<^verbatim>\<open>regularViewMatchesTags("x", ["x/y"])\<close> is true and
  \<^verbatim>\<open>regularViewMatchesTags("x", [])\<close> is false.
\<close>

theorem regularViewMatchesTags_examples:
  "regularViewMatchesTags ''a b'' [''a/b/c''] = True
   \<and> regularViewMatchesTags ''a b'' [''a/x''] = False
   \<and> regularViewMatchesTags ''x'' [''x/y''] = True
   \<and> regularViewMatchesTags ''x'' [] = False"
  using regularViewMatchesTags_nested_true regularViewMatchesTags_nested_false
    regularViewMatchesTags_flat_true regularViewMatchesTags_no_tags [of "''x''"]
  by simp

theorem regularViewMatchesTags_examples_witness:
  "regularViewMatchesTags ''x'' [''x/y''] \<and> \<not> regularViewMatchesTags ''a b'' [''a/x'']"
  using regularViewMatchesTags_examples by simp

section \<open>Properties of the initiated view names\<close>

lemma ViewsExtra_not_under_Views: "\<not> startsWith ''ViewsExtra/a.md'' ''Views/''"
  by (simp add: startsWith_def)

lemma getInitiatedViewNames_ViewsExtra:
  "getInitiatedViewNames default_user
     \<lparr> vault_files = [], cached_files = [''ViewsExtra/a.md''] \<rparr> None = [''xtra/a'']"
  by (simp add: getInitiatedViewNames_def default_user_def trimSlashes_def startsWith_def
      endsWith_def slice_to_neg_def)

text \<open>
  Claim C10: \<^verbatim>\<open>getInitiatedViewNames\<close> selects exactly the cached paths that start with
  the trimmed views path, with no separator required after it, and cuts each selected
  path at the length of the views path plus one and three characters before its end.
  With the views path "Views", the path "ViewsExtra/a.md" starts with "Views" but is not
  under "Views/": it is selected and listed under the mangled name "xtra/a", next to
  "c" for "Views/c.md", while "Things/b.md" is left out.
\<close>

theorem getInitiatedViewNames_prefix_only:
  "getInitiatedViewNames cfg app views_path_arg =
     map (slice_to_neg
            (length (trimSlashes
                       (case views_path_arg of None \<Rightarrow> VIEWS_PATH cfg | Some p \<Rightarrow> p)) + 1) 3)
       (filter
          (\<lambda>path. startsWith path
             (trimSlashes (case views_path_arg of None \<Rightarrow> VIEWS_PATH cfg | Some p \<Rightarrow> p)))
          (cached_files app))
   \<and> VIEWS_PATH default_user = ''Views''
   \<and> startsWith ''ViewsExtra/a.md'' ''Views''
   \<and> \<not> startsWith ''ViewsExtra/a.md'' ''Views/''
   \<and> \<not> startsWith ''Things/b.md'' ''Views''
   \<and> getInitiatedViewNames default_user
       \<lparr> vault_files = [], cached_files = [''ViewsExtra/a.md''] \<rparr> None = [''xtra/a'']
   \<and> getInitiatedViewNames default_user
       \<lparr> vault_files = [],
         cached_files = [''Things/b.md'', ''ViewsExtra/a.md'', ''Views/c.md''] \<rparr> None
       = [''xtra/a'', ''c'']"
  by (simp add: getInitiatedViewNames_def Let_def default_user_def trimSlashes_def
      startsWith_def endsWith_def slice_to_neg_def)

theorem getInitiatedViewNames_prefix_only_witness:
  "length (getInitiatedViewNames default_user
       \<lparr> vault_files = [],
         cached_files = [''Things/b.md'', ''ViewsExtra/a.md'', ''Views/c.md''] \<rparr> None) = 2
   \<and> ''xtra/a'' \<in> set (getInitiatedViewNames default_user
       \<lparr> vault_files = [],
         cached_files = [''Things/b.md'', ''ViewsExtra/a.md'', ''Views/c.md''] \<rparr> None)"
  using getInitiatedViewNames_prefix_only [of default_user "\<lparr> vault_files = [],
         cached_files = [''Things/b.md'', ''ViewsExtra/a.md'', ''Views/c.md''] \<rparr>" None]
  by (simp add: default_user_def trimSlashes_def startsWith_def endsWith_def slice_to_neg_def)

section \<open>Properties of the view resolver\<close>

lemma js_split_not_Nil: "js_split sep str \<noteq> []"
  by (induction str) (auto split: list.splits)

lemma join_slash_Cons: "ys \<noteq> [] \<Longrightarrow> join_slash (x # ys) = x @ ''/'' @ join_slash ys"
  by (cases ys) simp_all

lemma join_slash_js_split: "join_slash (js_split (CHR ''/'') str) = str"
proof (induction str)
  case Nil
  show ?case by simp
next
  case (Cons c cs)
  obtain s ss where sp: "js_split (CHR ''/'') cs = s # ss"
    using js_split_not_Nil [of "CHR ''/''" cs] by (cases "js_split (CHR ''/'') cs") auto
  show ?case
  proof (cases "c = CHR ''/''")
    case True
    with Cons sp show ?thesis by (simp add: join_slash_Cons)
  next
    case False
    with Cons sp show ?thesis by (cases ss) auto
  qed
qed

lemma segment_suffixes_append:
  "segment_suffixes (xs @ ys) = map (\<lambda>s. s @ ys) (segment_suffixes xs) @ segment_suffixes ys"
  by (induction xs) simp_all

text \<open>The loop of \<^verbatim>\<open>unshift\<close> builds the joined suffixes from the shortest to the
  longest, each put in front of the ones before.\<close>

lemma variations_loop_suffixes:
  "ys \<noteq> [] \<Longrightarrow>
   variations_loop xs (join_slash ys # rest) =
     map (\<lambda>s. join_slash (s @ ys)) (segment_suffixes xs) @ join_slash ys # rest"
proof (induction xs arbitrary: ys rest rule: rev_induct)
  case Nil
  show ?case by (subst variations_loop.simps) simp
next
  case (snoc x xs)
  have "variations_loop (xs @ [x]) (join_slash ys # rest) =
        variations_loop xs (join_slash (x # ys) # join_slash ys # rest)"
    using snoc.prems by (subst variations_loop.simps) (simp add: join_slash_Cons)
  also have "\<dots> = map (\<lambda>s. join_slash (s @ x # ys)) (segment_suffixes xs)
                    @ join_slash (x # ys) # join_slash ys # rest"
    by (rule snoc.IH) simp
  finally show ?case by (simp add: segment_suffixes_append)
qed

lemma matching_view_names_spec: "matching_view_names view_name = spec_search_order view_name"
proof -
  define segs where "segs = js_split (CHR ''/'') view_name"
  have ne: "segs \<noteq> []" by (simp add: segs_def js_split_not_Nil)
  then have segs: "segs = butlast segs @ [last segs]" by simp
  have "matching_view_names view_name =
        variations_loop (butlast segs) (join_slash [last segs] # [''/'' @ view_name])"
    by (simp add: matching_view_names_def segs_def Let_def)
  also have "\<dots> = map (\<lambda>s. join_slash (s @ [last segs])) (segment_suffixes (butlast segs))
                   @ join_slash [last segs] # [''/'' @ view_name]"
    by (rule variations_loop_suffixes) simp
  also have "\<dots> = map join_slash (segment_suffixes (butlast segs @ [last segs]))
                   @ [''/'' @ view_name]"
    by (simp add: segment_suffixes_append)
  finally show ?thesis using segs by (simp add: spec_search_order_def segs_def)
qed

lemma spec_search_order_first: "hd (spec_search_order view_name) = view_name"
proof -
  obtain s ss where sp: "js_split (CHR ''/'') view_name = s # ss"
    using js_split_not_Nil [of "CHR ''/''" view_name]
    by (cases "js_split (CHR ''/'') view_name") auto
  have "hd (spec_search_order view_name) = join_slash (js_split (CHR ''/'') view_name)"
    by (simp add: spec_search_order_def sp)
  then show ?thesis by (simp add: join_slash_js_split)
qed

lemma map_of_Some_key: "map_of table k = Some v \<Longrightarrow> k \<in> set (object_keys table)"
  by (metis object_keys_def map_of_eq_None_iff option.distinct(1) set_map)

lemma map_of_None_key: "map_of table k = None \<longleftrightarrow> k \<notin> set (object_keys table)"
  by (simp add: object_keys_def map_of_eq_None_iff)

lemma custom_view_loop_spec:
  "custom_view_loop user_table core_table tag_names variants =
   map_option (\<lambda>rule. rule tag_names) (spec_resolve_view_rule user_table core_table variants)"
proof (induction variants)
  case Nil
  show ?case by (simp add: spec_resolve_view_rule_def)
next
  case (Cons v vs)
  show ?case
  proof (cases "map_of user_table v")
    case (Some p)
    with map_of_Some_key [OF Some] show ?thesis by (simp add: spec_resolve_view_rule_def)
  next
    case None
    then have nu: "v \<notin> set (object_keys user_table)"
      by (simp add: map_of_None_key)
    show ?thesis
    proof (cases "map_of core_table v")
      case (Some p)
      with map_of_Some_key [OF Some] None nu show ?thesis
        by (simp add: spec_resolve_view_rule_def)
    next
      case None2: None
      then have "v \<notin> set (object_keys core_table)"
        by (simp add: map_of_None_key)
      with None None2 nu Cons show ?thesis by (simp add: spec_resolve_view_rule_def)
    qed
  qed
qed

lemma viewMatchesTags_unfold:
  "viewMatchesTags cfg app view_name (Some tag_names) kwargs =
     (tag_rules_loop (kwarg kwargs kw_custom_tags (CUSTOM_TAGS cfg)) (CORE_CUSTOM_TAGS cfg)
        (trimSlashes view_name) tag_names
      \<and> (case spec_resolve_view_rule (kwarg kwargs kw_custom_views (CUSTOM_VIEWS cfg))
                 (CORE_CUSTOM_VIEWS cfg app) (spec_search_order (trimSlashes view_name)) of
            Some rule \<Rightarrow> rule tag_names
          | None \<Rightarrow> regularViewMatchesTags (trimSlashes view_name) tag_names))"
  by (simp add: viewMatchesTags_def Let_def custom_view_loop_spec matching_view_names_spec
      split: option.splits)

text \<open>
  Claim C5: in \<^verbatim>\<open>viewMatchesTags\<close> the variations of the trimmed view name with the
  segments \<open>s1/../sN\<close> are, in this order, the full name, the suffix starting at \<open>s2\<close>,
  and so on, the leaf \<open>sN\<close>, then "/" followed by the full name. The loop over them finds
  the first one that is a key of the user table or of the built-in table, takes the
  predicate of the user table when the variation is a key there and of the built-in table
  otherwise, and \<^verbatim>\<open>viewMatchesTags\<close> returns that predicate applied to the tag list
  (after the tag rules have let the view pass).
\<close>

theorem viewMatchesTags_view_rule_search_order:
  "matching_view_names view_name = spec_search_order view_name
   \<and> hd (spec_search_order view_name) = view_name
   \<and> custom_view_loop user_table core_table tag_names variants =
       map_option (\<lambda>rule. rule tag_names)
         (spec_resolve_view_rule user_table core_table variants)
   \<and> viewMatchesTags cfg app view_name (Some tag_names) kwargs =
       (tag_rules_loop (kwarg kwargs kw_custom_tags (CUSTOM_TAGS cfg)) (CORE_CUSTOM_TAGS cfg)
          (trimSlashes view_name) tag_names
        \<and> (case spec_resolve_view_rule (kwarg kwargs kw_custom_views (CUSTOM_VIEWS cfg))
                   (CORE_CUSTOM_VIEWS cfg app) (spec_search_order (trimSlashes view_name)) of
              Some rule \<Rightarrow> rule tag_names
            | None \<Rightarrow> regularViewMatchesTags (trimSlashes view_name) tag_names))"
  using matching_view_names_spec [of view_name] spec_search_order_first [of view_name]
    custom_view_loop_spec [of user_table core_table tag_names variants]
    viewMatchesTags_unfold [of cfg app view_name tag_names kwargs]
  by blast

theorem viewMatchesTags_view_rule_search_order_witness:
  "matching_view_names ''a/b/c'' = [''a/b/c'', ''b/c'', ''c'', ''/a/b/c'']
   \<and> custom_view_loop [(''c'', two_tags)] [(''b/c'', \<lambda>_. False), (''/a/b/c'', \<lambda>_. True)]
        [''p'', ''q''] [''a/b/c'', ''b/c'', ''c'', ''/a/b/c''] = Some False
   \<and> custom_view_loop [(''c'', two_tags), (''b/c'', \<lambda>_. True)] [(''b/c'', \<lambda>_. False)]
        [''p'', ''q''] [''a/b/c'', ''b/c'', ''c'', ''/a/b/c''] = Some True"
  using viewMatchesTags_view_rule_search_order
      [of "''a/b/c''" "[(''c'', two_tags)]" "[(''b/c'', \<lambda>_. False), (''/a/b/c'', \<lambda>_. True)]"
          "[''p'', ''q'']" "[''a/b/c'', ''b/c'', ''c'', ''/a/b/c'']"]
    viewMatchesTags_view_rule_search_order
      [of "''a/b/c''" "[(''c'', two_tags), (''b/c'', \<lambda>_. True)]" "[(''b/c'', \<lambda>_. False)]"
          "[''p'', ''q'']" "[''a/b/c'', ''b/c'', ''c'', ''/a/b/c'']"]
  by (simp add: spec_search_order_def spec_resolve_view_rule_def object_keys_def)

lemma CORE_CUSTOM_TAGS_default:
  "CORE_CUSTOM_TAGS default_user = [(''Archive'', \<lambda>view_name. view_name = ''Archive'')]"
  by (simp add: CORE_CUSTOM_TAGS_def object_literal_def default_user_def)

lemma CORE_CUSTOM_VIEWS_default:
  "CORE_CUSTOM_VIEWS default_user app =
     [(''All'', \<lambda>_. True), (''Untagged'', \<lambda>tag_names. length tag_names = 0),
      (''Others'', Others default_user app)]"
  by (simp add: CORE_CUSTOM_VIEWS_def object_literal_def default_user_def)

lemma tag_rules_loop_archive:
  "tag_rules_loop [] [(''Archive'', \<lambda>view_name. view_name = ''Archive'')] ''All'' T =
   (''Archive'' \<notin> set T)"
  by (induction T) auto

lemma trimSlashes_All: "trimSlashes ''All'' = ''All''"
  by (simp add: trimSlashes_def startsWith_def endsWith_def)

lemma viewMatchesTags_All_default:
  "viewMatchesTags default_user app ''All'' (Some T) None = (''Archive'' \<notin> set T)"
  by (simp add: viewMatchesTags_def kwarg_def trimSlashes_All CORE_CUSTOM_TAGS_default
      CORE_CUSTOM_VIEWS_default matching_view_names_spec spec_search_order_def)
     (simp add: default_user_def tag_rules_loop_archive)

text \<open>
  Claim C1, as the code has it: with the default names, the built-in tables and empty
  user tables, \<^verbatim>\<open>viewMatchesTags("All", T)\<close> is true exactly when the tag "Archive" is
  not in \<open>T\<close>. The built-in custom tag \<^verbatim>\<open>Archive\<close> hides a thing from every view but
  the view "Archive", the view "All" included.
\<close>

theorem viewMatchesTags_All_unless_archived:
  "viewMatchesTags default_user app ''All'' (Some T) None = (''Archive'' \<notin> set T)"
  by (rule viewMatchesTags_All_default)

theorem viewMatchesTags_All_unless_archived_witness:
  "viewMatchesTags default_user empty_vault ''All'' (Some [''proj/web'', ''todo'']) None
   \<and> viewMatchesTags default_user empty_vault ''All'' (Some []) None"
  using viewMatchesTags_All_unless_archived [of empty_vault "[''proj/web'', ''todo'']"]
    viewMatchesTags_All_unless_archived [of empty_vault "[]"]
  by simp

text \<open>Claim C1 as stated fails on the tag list with the one tag "Archive".\<close>

theorem viewMatchesTags_All_archived:
  "\<not> viewMatchesTags default_user empty_vault ''All'' (Some [''Archive'']) None"
  by (simp add: viewMatchesTags_All_default)

lemma tag_rules_loop_no_rules:
  "set T \<inter> (set (object_keys user_table) \<union> set (object_keys core_table)) = {} \<Longrightarrow>
   tag_rules_loop user_table core_table view_name T"
proof (induction T)
  case Nil
  show ?case by simp
next
  case (Cons t T)
  then have "map_of user_table t = None" and "map_of core_table t = None"
    by (simp_all add: map_of_None_key)
  with Cons show ?case by simp
qed

lemma custom_view_loop_no_rules:
  "set variants \<inter> (set (object_keys user_table) \<union> set (object_keys core_table)) = {} \<Longrightarrow>
   custom_view_loop user_table core_table T variants = None"
proof (induction variants)
  case Nil
  show ?case by simp
next
  case (Cons v vs)
  then have "map_of user_table v = None" and "map_of core_table v = None"
    by (simp_all add: map_of_None_key)
  with Cons show ?case by simp
qed

lemma tag_rules_loop_rejects:
  "t \<in> set T \<Longrightarrow> resolveTagRule user_table core_table t = Some rule \<Longrightarrow>
   \<not> rule view_name \<Longrightarrow> \<not> tag_rules_loop user_table core_table view_name T"
proof (induction T)
  case Nil
  then show ?case by simp
next
  case (Cons a T)
  show ?case
  proof (cases "a = t")
    case True
    with Cons.prems show ?thesis
      by (auto simp add: resolveTagRule_def split: option.splits)
  next
    case False
    with Cons show ?thesis by (auto split: option.splits)
  qed
qed

lemma viewMatchesTags_rejected:
  assumes "t \<in> set T"
    and "resolveTagRule (kwarg kwargs kw_custom_tags (CUSTOM_TAGS cfg)) (CORE_CUSTOM_TAGS cfg) t
           = Some rule"
    and "\<not> rule (trimSlashes V)"
  shows "\<not> viewMatchesTags cfg app V (Some T) kwargs"
  using tag_rules_loop_rejects [OF assms] by (simp add: viewMatchesTags_def Let_def)

text \<open>
  Claim C6, as the code has it: for every view name \<open>V\<close> and every tag list with the one
  tag \<open>t\<close>, when a tag rule for \<open>t\<close> resolves (the user table first, then the built-in
  table) and that rule applied to \<^verbatim>\<open>trimSlashes(V)\<close>, the name that
  \<^verbatim>\<open>viewMatchesTags\<close> hands to the rule, is false, \<^verbatim>\<open>viewMatchesTags(V, [t])\<close> is false,
  whatever the custom views and the regular matcher say.
\<close>

theorem viewMatchesTags_tag_rule_false:
  assumes "resolveTagRule (kwarg kwargs kw_custom_tags (CUSTOM_TAGS cfg)) (CORE_CUSTOM_TAGS cfg) t
           = Some rule"
    and "\<not> rule (trimSlashes V)"
  shows "viewMatchesTags cfg app V (Some [t]) kwargs = False"
  using viewMatchesTags_rejected [of t "[t]", OF _ assms] by simp

theorem viewMatchesTags_tag_rule_false_witness:
  "resolveTagRule
     (kwarg (Some \<lparr> kw_custom_views = Some [(''V'', every_thing)],
                    kw_custom_tags = Some [(''t'', only_view_W)] \<rparr>)
        kw_custom_tags (CUSTOM_TAGS default_user))
     (CORE_CUSTOM_TAGS default_user) ''t'' = Some only_view_W
   \<and> \<not> only_view_W (trimSlashes ''V'')
   \<and> every_thing [''t'']
   \<and> viewMatchesTags default_user empty_vault ''V'' (Some [''t''])
       (Some \<lparr> kw_custom_views = Some [(''V'', every_thing)],
                kw_custom_tags = Some [(''t'', only_view_W)] \<rparr>) = False"
proof -
  have r: "resolveTagRule
     (kwarg (Some \<lparr> kw_custom_views = Some [(''V'', every_thing)],
                    kw_custom_tags = Some [(''t'', only_view_W)] \<rparr>)
        kw_custom_tags (CUSTOM_TAGS default_user))
     (CORE_CUSTOM_TAGS default_user) ''t'' = Some only_view_W"
    by (simp add: resolveTagRule_def kwarg_def)
  have f: "\<not> only_view_W (trimSlashes ''V'')"
    by (simp add: only_view_W_def trimSlashes_def startsWith_def endsWith_def)
  show ?thesis
    using r f viewMatchesTags_tag_rule_false [OF r f, of empty_vault]
    by (simp add: every_thing_def)
qed

lemma trimSlashes_anchored_x: "trimSlashes ''/x'' = ''x''"
  by (simp add: trimSlashes_def startsWith_def endsWith_def slice_from_def)

text \<open>
  Claim C6 as stated fails: the rule \<^verbatim>\<open>not_anchored\<close> for the tag "x" is false on the
  view name "/x" as it is given, and \<^verbatim>\<open>viewMatchesTags("/x", ["x"])\<close> is true, since the
  rule is asked about the trimmed name "x".
\<close>

theorem viewMatchesTags_tag_rule_untrimmed:
  "resolveTagRule
     (kwarg (Some \<lparr> kw_custom_views = None, kw_custom_tags = Some [(''x'', not_anchored)] \<rparr>)
        kw_custom_tags (CUSTOM_TAGS default_user))
     (CORE_CUSTOM_TAGS default_user) ''x'' = Some not_anchored
   \<and> not_anchored ''/x'' = False
   \<and> viewMatchesTags default_user empty_vault ''/x'' (Some [''x''])
       (Some \<lparr> kw_custom_views = None, kw_custom_tags = Some [(''x'', not_anchored)] \<rparr>) = True"
  by (simp add: resolveTagRule_def kwarg_def not_anchored_def startsWith_def
      viewMatchesTags_unfold trimSlashes_anchored_x CORE_CUSTOM_TAGS_default
      CORE_CUSTOM_VIEWS_default spec_search_order_def spec_resolve_view_rule_def
      object_keys_def regularViewMatchesTags_def)
     (simp add: default_user_def trimSlashes_def startsWith_def endsWith_def)

lemma regularViewMatchesTags_trimmed:
  "trimSlashes (trimSlashes V) = trimSlashes V \<Longrightarrow>
   regularViewMatchesTags (trimSlashes V) T = regularViewMatchesTags V T"
  by (simp add: regularViewMatchesTags_def)

text \<open>
  Claim C7, as the code has it: when no variation of the trimmed view name is a key of
  either custom-view table and no tag of \<open>T\<close> is a key of either custom-tag table,
  \<^verbatim>\<open>viewMatchesTags(V, T)\<close> equals \<^verbatim>\<open>regularViewMatchesTags(trimSlashes(V), T)\<close>; it
  equals \<^verbatim>\<open>regularViewMatchesTags(V, T)\<close> whenever a second trim leaves
  \<^verbatim>\<open>trimSlashes(V)\<close> as it is.
\<close>

theorem viewMatchesTags_regular_fallback:
  assumes "set (matching_view_names (trimSlashes V))
             \<inter> (set (object_keys (kwarg kwargs kw_custom_views (CUSTOM_VIEWS cfg)))
                  \<union> set (object_keys (CORE_CUSTOM_VIEWS cfg app))) = {}"
    and "set T \<inter> (set (object_keys (kwarg kwargs kw_custom_tags (CUSTOM_TAGS cfg)))
                    \<union> set (object_keys (CORE_CUSTOM_TAGS cfg))) = {}"
  shows "viewMatchesTags cfg app V (Some T) kwargs = regularViewMatchesTags (trimSlashes V) T
         \<and> (trimSlashes (trimSlashes V) = trimSlashes V \<longrightarrow>
              viewMatchesTags cfg app V (Some T) kwargs = regularViewMatchesTags V T)"
  using tag_rules_loop_no_rules [OF assms(2)] custom_view_loop_no_rules [OF assms(1)]
    regularViewMatchesTags_trimmed [of V T]
  by (simp add: viewMatchesTags_def Let_def)

lemma default_keys:
  "object_keys (CUSTOM_VIEWS default_user) = []"
  "object_keys (CORE_CUSTOM_VIEWS default_user app) = [''All'', ''Untagged'', ''Others'']"
  "object_keys (CUSTOM_TAGS default_user) = []"
  "object_keys (CORE_CUSTOM_TAGS default_user) = [''Archive'']"
  by (simp_all add: CORE_CUSTOM_VIEWS_default CORE_CUSTOM_TAGS_default object_keys_def)
     (simp_all add: default_user_def)

lemma trimSlashes_x_two_slashes: "trimSlashes ''x//'' = ''x/''"
  by (simp add: trimSlashes_def startsWith_def endsWith_def slice_to_neg_def)

lemma trimSlashes_x_one_slash: "trimSlashes ''x/'' = ''x''"
  by (simp add: trimSlashes_def startsWith_def endsWith_def slice_to_neg_def)

lemma trimSlashes_x: "trimSlashes ''x'' = ''x''"
  by (simp add: trimSlashes_def startsWith_def endsWith_def slice_to_neg_def)

theorem viewMatchesTags_regular_fallback_witness:
  "set (matching_view_names (trimSlashes ''/sub/proj web/''))
     \<inter> (set (object_keys (kwarg None kw_custom_views (CUSTOM_VIEWS default_user)))
          \<union> set (object_keys (CORE_CUSTOM_VIEWS default_user empty_vault))) = {}
   \<and> set [''proj/web/ui'']
     \<inter> (set (object_keys (kwarg None kw_custom_tags (CUSTOM_TAGS default_user)))
          \<union> set (object_keys (CORE_CUSTOM_TAGS default_user))) = {}
   \<and> trimSlashes (trimSlashes ''/sub/proj web/'') = trimSlashes ''/sub/proj web/''
   \<and> viewMatchesTags default_user empty_vault ''/sub/proj web/'' (Some [''proj/web/ui'']) None
       = regularViewMatchesTags ''/sub/proj web/'' [''proj/web/ui'']
   \<and> regularViewMatchesTags ''/sub/proj web/'' [''proj/web/ui'']"
proof -
  have t: "trimSlashes ''/sub/proj web/'' = ''sub/proj web''"
    using trimSlashes_both [of "''sub/proj web''"] by simp
  have tt: "trimSlashes ''sub/proj web'' = ''sub/proj web''"
    by (rule trimSlashes_fixed) (simp_all add: startsWith_def endsWith_def)
  have a: "set (matching_view_names (trimSlashes ''/sub/proj web/''))
             \<inter> (set (object_keys (kwarg None kw_custom_views (CUSTOM_VIEWS default_user)))
                  \<union> set (object_keys (CORE_CUSTOM_VIEWS default_user empty_vault))) = {}"
    by (simp add: t matching_view_names_spec spec_search_order_def kwarg_def default_keys)
  have b: "set [''proj/web/ui'']
             \<inter> (set (object_keys (kwarg None kw_custom_tags (CUSTOM_TAGS default_user)))
                  \<union> set (object_keys (CORE_CUSTOM_TAGS default_user))) = {}"
    by (simp add: kwarg_def default_keys)
  have r: "regularViewMatchesTags ''/sub/proj web/'' [''proj/web/ui'']"
    by (simp add: regularViewMatchesTags_def t)
  have i: "trimSlashes (trimSlashes ''/sub/proj web/'') = trimSlashes ''/sub/proj web/''"
    by (simp add: t tt)
  from viewMatchesTags_regular_fallback [OF a b] i
  have "viewMatchesTags default_user empty_vault ''/sub/proj web/'' (Some [''proj/web/ui'']) None
          = regularViewMatchesTags ''/sub/proj web/'' [''proj/web/ui'']"
    by blast
  with a b i r show ?thesis by blast
qed

text \<open>
  Claim C7 as stated fails on the view name "x//" and the tag "x", with the default
  tables: no variation of "x//" or of its trimmed form "x/" is a key, the tag is no key,
  \<^verbatim>\<open>viewMatchesTags\<close> is true (the regular matcher trims "x/" once more, to "x") and
  \<^verbatim>\<open>regularViewMatchesTags("x//", ["x"])\<close> is false (it matches on the empty last
  segment of "x/").
\<close>

theorem viewMatchesTags_regular_fallback_untrimmed:
  "set (matching_view_names (trimSlashes ''x//''))
     \<inter> (set (object_keys (CUSTOM_VIEWS default_user))
          \<union> set (object_keys (CORE_CUSTOM_VIEWS default_user empty_vault))) = {}
   \<and> set (matching_view_names ''x//'')
     \<inter> (set (object_keys (CUSTOM_VIEWS default_user))
          \<union> set (object_keys (CORE_CUSTOM_VIEWS default_user empty_vault))) = {}
   \<and> set [''x'']
     \<inter> (set (object_keys (CUSTOM_TAGS default_user))
          \<union> set (object_keys (CORE_CUSTOM_TAGS default_user))) = {}
   \<and> viewMatchesTags default_user empty_vault ''x//'' (Some [''x'']) None = True
   \<and> regularViewMatchesTags ''x//'' [''x''] = False"
proof -
  have a: "set (matching_view_names (trimSlashes ''x//''))
     \<inter> (set (object_keys (CUSTOM_VIEWS default_user))
          \<union> set (object_keys (CORE_CUSTOM_VIEWS default_user empty_vault))) = {}"
    by (simp add: trimSlashes_x_two_slashes matching_view_names_spec spec_search_order_def
        default_keys)
  have a': "set (matching_view_names ''x//'')
     \<inter> (set (object_keys (CUSTOM_VIEWS default_user))
          \<union> set (object_keys (CORE_CUSTOM_VIEWS default_user empty_vault))) = {}"
    by (simp add: matching_view_names_spec spec_search_order_def default_keys)
  have b: "set [''x'']
     \<inter> (set (object_keys (CUSTOM_TAGS default_user))
          \<union> set (object_keys (CORE_CUSTOM_TAGS default_user))) = {}"
    by (simp add: default_keys)
  have "tag_rules_loop (CUSTOM_TAGS default_user) (CORE_CUSTOM_TAGS default_user) ''x/'' [''x'']"
    by (rule tag_rules_loop_no_rules [OF b])
  moreover have "custom_view_loop (CUSTOM_VIEWS default_user)
      (CORE_CUSTOM_VIEWS default_user empty_vault) [''x''] (matching_view_names ''x/'') = None"
    using a by (intro custom_view_loop_no_rules) (simp add: trimSlashes_x_two_slashes)
  moreover have "regularViewMatchesTags ''x/'' [''x'']"
    by (simp add: regularViewMatchesTags_def trimSlashes_x_one_slash)
  ultimately have v: "viewMatchesTags default_user empty_vault ''x//'' (Some [''x'']) None"
    by (simp add: viewMatchesTags_def kwarg_def trimSlashes_x_two_slashes)
  have r: "\<not> regularViewMatchesTags ''x//'' [''x'']"
    by (simp add: regularViewMatchesTags_def trimSlashes_x_two_slashes)
  show ?thesis using a a' b v r by simp
qed

section \<open>Properties of the Others view\<close>

lemma object_keys_CORE_CUSTOM_VIEWS:
  "object_keys (CORE_CUSTOM_VIEWS cfg app) = core_custom_view_names cfg"
  by (simp add: CORE_CUSTOM_VIEWS_def core_custom_view_names_def object_literal_def
      object_keys_def)

lemma map_of_CORE_CUSTOM_VIEWS_Others:
  "map_of (CORE_CUSTOM_VIEWS cfg app) (OTHERS_NAME cfg) = Some (Others cfg app)"
  by (simp add: CORE_CUSTOM_VIEWS_def object_literal_def)

lemma others_loop_iff:
  "others_loop core_view_names user_views tag_names names \<longleftrightarrow>
     (\<forall>view_name \<in> set names.
        view_name \<in> set core_view_names
        \<or> (\<not> user_view_claims user_views view_name tag_names
            \<and> \<not> regularViewMatchesTags view_name tag_names))"
  by (induction names) (auto simp add: user_view_claims_def)

lemma others_loop_earlier_differs:
  "others_loop [''All'', ''Untagged'', ''Others''] [(''u'', two_tags)] [''t''] [''u'']
   \<and> \<not> others_loop_earlier [''All'', ''Untagged'', ''Others''] [(''u'', two_tags)] [''t''] [''u'']"
  by (simp add: two_tags_def object_keys_def regularViewMatchesTags_def trimSlashes_def
      startsWith_def endsWith_def)

text \<open>
  What the predicate of the built-in view \<^verbatim>\<open>Others\<close> computes (the latest revision,
  \<^verbatim>\<open>src/unnamed/part_003\<close>): it is the entry of the built-in table under
  \<^verbatim>\<open>OTHERS_NAME\<close>, and it holds on a tag list exactly when every initiated view name
  either is a key of the built-in table, and is then ignored, or neither claims the thing
  as a user-defined view nor matches it through the regular matcher. The regular matcher
  is asked about every initiated name that is not built-in, the names of user-defined
  views included.
\<close>

lemma Others_membership:
  "map_of (CORE_CUSTOM_VIEWS cfg app) (OTHERS_NAME cfg) = Some (Others cfg app)
   \<and> (Others cfg app tag_names \<longleftrightarrow>
        (\<forall>view_name \<in> set (getInitiatedViewNames cfg app None).
           view_name \<in> set (object_keys (CORE_CUSTOM_VIEWS cfg app))
           \<or> (\<not> user_view_claims (CUSTOM_VIEWS cfg) view_name tag_names
               \<and> \<not> regularViewMatchesTags view_name tag_names)))"
  using map_of_CORE_CUSTOM_VIEWS_Others [of cfg app]
  by (simp add: Others_def others_loop_iff object_keys_CORE_CUSTOM_VIEWS)

lemma getInitiatedViewNames_view_u:
  "getInitiatedViewNames user_with_view_u vault_with_view_u None = [''u'', ''All'']"
  by (simp add: getInitiatedViewNames_def user_with_view_u_def vault_with_view_u_def
      default_user_def trimSlashes_def startsWith_def endsWith_def slice_to_neg_def)

lemma core_keys_view_u:
  "object_keys (CORE_CUSTOM_VIEWS user_with_view_u app) = [''All'', ''Untagged'', ''Others'']"
  by (simp add: CORE_CUSTOM_VIEWS_def object_literal_def object_keys_def user_with_view_u_def
      default_user_def)

lemma regular_u: "\<not> regularViewMatchesTags ''u'' [''t'']"
  "\<not> regularViewMatchesTags ''u'' [''t'', ''s'']"
  by (simp_all add: regularViewMatchesTags_def trimSlashes_def startsWith_def endsWith_def)

lemma Others_membership_example:
  "''u'' \<in> set (getInitiatedViewNames user_with_view_u vault_with_view_u None)
   \<and> ''u'' \<in> set (object_keys (CUSTOM_VIEWS user_with_view_u))
   \<and> Others user_with_view_u vault_with_view_u [''t'']
   \<and> \<not> Others user_with_view_u vault_with_view_u [''t'', ''s'']"
proof -
  have keys: "object_keys (CUSTOM_VIEWS user_with_view_u) = [''u'']"
    by (simp add: user_with_view_u_def object_keys_def)
  have c1: "\<not> user_view_claims (CUSTOM_VIEWS user_with_view_u) ''u'' [''t'']"
    and c2: "user_view_claims (CUSTOM_VIEWS user_with_view_u) ''u'' [''t'', ''s'']"
    by (simp_all add: user_with_view_u_def user_view_claims_def two_tags_def)
  show ?thesis
    using Others_membership [of user_with_view_u vault_with_view_u "[''t'']"]
      Others_membership [of user_with_view_u vault_with_view_u "[''t'', ''s'']"]
    by (simp add: getInitiatedViewNames_view_u core_keys_view_u regular_u keys c1 c2)
qed

lemma trimSlashes_u: "trimSlashes ''u'' = ''u''"
  by (simp add: trimSlashes_def startsWith_def endsWith_def)

lemma trimSlashes_Others: "trimSlashes ''Others'' = ''Others''"
  by (simp add: trimSlashes_def startsWith_def endsWith_def)

lemma CORE_CUSTOM_VIEWS_view_u:
  "CORE_CUSTOM_VIEWS user_with_view_u app =
     [(''All'', \<lambda>_. True), (''Untagged'', \<lambda>tag_names. length tag_names = 0),
      (''Others'', Others user_with_view_u app)]"
  by (simp add: CORE_CUSTOM_VIEWS_def object_literal_def user_with_view_u_def default_user_def)

lemma CORE_CUSTOM_TAGS_view_u:
  "CORE_CUSTOM_TAGS user_with_view_u = [(''Archive'', \<lambda>view_name. view_name = ''Archive'')]"
  by (simp add: CORE_CUSTOM_TAGS_def object_literal_def user_with_view_u_def default_user_def)

lemma tables_view_u:
  "CUSTOM_VIEWS user_with_view_u = [(''u'', two_tags)]"
  "CUSTOM_TAGS user_with_view_u = []"
  by (simp_all add: user_with_view_u_def default_user_def)

lemma regular_u_u: "regularViewMatchesTags ''u'' [''u'']"
  by (simp add: regularViewMatchesTags_def trimSlashes_u)

lemma Others_u: "\<not> Others user_with_view_u vault_with_view_u [''u'']"
  by (simp add: Others_def getInitiatedViewNames_view_u core_custom_view_names_def
      object_literal_def object_keys_def tables_view_u regular_u_u two_tags_def)
     (simp add: user_with_view_u_def default_user_def)

text \<open>
  Claim C2 on the code: the claim says that \<^verbatim>\<open>Others\<close> returns false because of a
  user-defined view only when that view's own predicate is true on the tag list. With
  the user-defined view "u" (things with exactly two tags), the view file "Views/u.md"
  and a thing with the one tag "u", the predicate of "u" is false and the view "u" does
  not show the thing, yet \<^verbatim>\<open>Others\<close> returns false: the name "u" is also handed to
  the regular matcher, which matches the tag "u". The thing is shown neither in "u" nor
  in "Others".
\<close>

theorem Others_excludes_by_regular_match:
  "''u'' \<in> set (getInitiatedViewNames user_with_view_u vault_with_view_u None)
   \<and> ''u'' \<in> set (object_keys (CUSTOM_VIEWS user_with_view_u))
   \<and> ''u'' \<notin> set (object_keys (CORE_CUSTOM_VIEWS user_with_view_u vault_with_view_u))
   \<and> user_view_claims (CUSTOM_VIEWS user_with_view_u) ''u'' [''u''] = False
   \<and> viewMatchesTags user_with_view_u vault_with_view_u ''u'' (Some [''u'']) None = False
   \<and> regularViewMatchesTags ''u'' [''u''] = True
   \<and> Others user_with_view_u vault_with_view_u [''u''] = False
   \<and> viewMatchesTags user_with_view_u vault_with_view_u ''Others'' (Some [''u'']) None = False"
proof -
  have v: "\<not> viewMatchesTags user_with_view_u vault_with_view_u ''u'' (Some [''u'']) None"
    by (simp add: viewMatchesTags_unfold kwarg_def trimSlashes_u tables_view_u
        CORE_CUSTOM_VIEWS_view_u spec_search_order_def spec_resolve_view_rule_def
        object_keys_def two_tags_def)
  have o: "\<not> viewMatchesTags user_with_view_u vault_with_view_u ''Others'' (Some [''u'']) None"
    by (simp add: viewMatchesTags_unfold kwarg_def trimSlashes_Others tables_view_u
        CORE_CUSTOM_VIEWS_view_u spec_search_order_def spec_resolve_view_rule_def
        object_keys_def Others_u)
  have k: "''u'' \<in> set (object_keys (CUSTOM_VIEWS user_with_view_u))"
    by (simp add: tables_view_u object_keys_def)
  have c: "\<not> user_view_claims (CUSTOM_VIEWS user_with_view_u) ''u'' [''u'']"
    by (simp add: tables_view_u user_view_claims_def two_tags_def)
  show ?thesis
    using v o k c Others_u regular_u_u
    by (simp add: getInitiatedViewNames_view_u core_keys_view_u)
qed

theorem Others_excludes_by_regular_match_witness:
  "\<not> Others user_with_view_u vault_with_view_u [''u'']
   \<and> \<not> user_view_claims (CUSTOM_VIEWS user_with_view_u) ''u'' [''u'']"
  using Others_excludes_by_regular_match by simp

section \<open>Properties of the view enumerator\<close>

lemma set_push_names_loop:
  "set (push_names_loop ini names un) = set un \<union> (set names - set ini)"
  by (induction names arbitrary: un) auto

lemma distinct_push_names_loop:
  "distinct un \<Longrightarrow> distinct (push_names_loop ini names un)"
  by (induction names arbitrary: un) auto

lemma set_push_arrays_loop:
  "set (push_arrays_loop ini arrays un) = set un \<union> (\<Union> (set ` set arrays) - set ini)"
  by (induction arrays arbitrary: un) (auto simp add: set_push_names_loop)

lemma distinct_push_arrays_loop:
  "distinct un \<Longrightarrow> distinct (push_arrays_loop ini arrays un)"
  by (induction arrays arbitrary: un) (auto simp add: distinct_push_names_loop)

lemma initiated_getAllViews:
  "initiated (getAllViews cfg app kwargs) =
     sort (getInitiatedViewNames cfg app
             (Some (trimSlashes (kwarg kwargs av_views_path (VIEWS_PATH cfg)))))"
  by (simp add: getAllViews_def Let_def)

lemma set_uninitiated_getAllViews:
  "set (uninitiated (getAllViews cfg app kwargs)) =
     \<Union> (set ` set (possible_uninitiated_view_name_arrays cfg app
            (kwarg kwargs av_calculate_subfolder_uninitiated (CALCULATE_SUBFOLDER_UNINITIATED cfg))
            (trimSlashes (kwarg kwargs av_things_path (THINGS_PATH cfg)))
            (kwarg kwargs av_custom_views (CUSTOM_VIEWS cfg))
            (kwarg kwargs av_custom_tags (CUSTOM_TAGS cfg))))
     - set (initiated (getAllViews cfg app kwargs))"
  by (simp add: getAllViews_def Let_def set_push_arrays_loop)

lemma distinct_uninitiated_getAllViews: "distinct (uninitiated (getAllViews cfg app kwargs))"
  by (simp add: getAllViews_def Let_def distinct_push_arrays_loop)

lemma sorted_getAllViews:
  "sorted (initiated (getAllViews cfg app kwargs))"
  "sorted (uninitiated (getAllViews cfg app kwargs))"
  by (simp_all add: getAllViews_def Let_def)

text \<open>
  Claim C8, as the code has it: in the result of \<^verbatim>\<open>getAllViews\<close> no view name is in
  both the initiated and the uninitiated list, the uninitiated list has no duplicate
  entries, and each of the two lists is sorted. (The initiated list is the sorted list
  of the sliced paths, one entry for each path.)
\<close>

theorem getAllViews_lists:
  "set (initiated (getAllViews cfg app kwargs))
     \<inter> set (uninitiated (getAllViews cfg app kwargs)) = {}
   \<and> distinct (uninitiated (getAllViews cfg app kwargs))
   \<and> sorted (initiated (getAllViews cfg app kwargs))
   \<and> sorted (uninitiated (getAllViews cfg app kwargs))"
  using set_uninitiated_getAllViews [of cfg app kwargs]
    distinct_uninitiated_getAllViews [of cfg app kwargs] sorted_getAllViews [of cfg app kwargs]
  by auto

theorem getAllViews_lists_witness:
  "distinct (uninitiated (getAllViews default_user vault_with_subfolders None))
   \<and> sorted (uninitiated (getAllViews default_user vault_with_subfolders None))
   \<and> ''proj web'' \<notin> set (uninitiated (getAllViews default_user vault_with_subfolders None))"
proof -
  have "initiated (getAllViews default_user vault_with_subfolders None) = [''proj web'']"
    by (simp add: initiated_getAllViews kwarg_def getInitiatedViewNames_def
        vault_with_subfolders_def default_user_def trimSlashes_def startsWith_def endsWith_def
        slice_to_neg_def)
  then show ?thesis
    using getAllViews_lists [of default_user vault_with_subfolders None] by auto
qed

text \<open>
  Claim C8 as stated fails for the initiated list: two cached paths that differ only in
  their last three characters, or only before the cut, give the same name twice.
\<close>

theorem getAllViews_initiated_duplicates:
  "initiated (getAllViews default_user
      \<lparr> vault_files = [], cached_files = [''Views/a.md'', ''Views/a.js''] \<rparr> None)
     = [''a'', ''a'']
   \<and> \<not> distinct (initiated (getAllViews default_user
      \<lparr> vault_files = [], cached_files = [''Views/a.md'', ''Views/a.js''] \<rparr> None))
   \<and> \<not> distinct (initiated (getAllViews default_user
      \<lparr> vault_files = [], cached_files = [''Views/a.md'', ''ViewsXa.md''] \<rparr> None))"
  by (simp add: initiated_getAllViews kwarg_def getInitiatedViewNames_def default_user_def
      trimSlashes_def startsWith_def endsWith_def slice_to_neg_def)

lemma set_add_tags_loop:
  "set (add_tags_loop full_subfolder tags names) =
     set names \<union> (\<lambda>tag. full_subfolder @ tag) ` set tags"
  by (induction tags arbitrary: names) (auto simp add: set_add_def)

lemma subfolders_loop_mono: "set names \<subseteq> set (subfolders_loop tags full subs names)"
proof (induction subs arbitrary: full names)
  case Nil
  show ?case by simp
next
  case (Cons s subs)
  have "set names \<subseteq> set (add_tags_loop (full @ s @ ''/'') tags names)"
    by (simp add: set_add_tags_loop)
  also have "\<dots> \<subseteq> set (subfolders_loop tags (full @ s @ ''/'') subs
                          (add_tags_loop (full @ s @ ''/'') tags names))"
    by (rule Cons.IH)
  finally show ?case by (simp add: Let_def)
qed

text \<open>Every prefix of the subfolders, each followed by "/", is put in front of every tag.\<close>

lemma subfolders_loop_prefixes:
  "tag \<in> set tags \<Longrightarrow> 0 < k \<Longrightarrow> k \<le> length subs \<Longrightarrow>
   full @ concat (map (\<lambda>s. s @ ''/'') (take k subs)) @ tag
     \<in> set (subfolders_loop tags full subs names)"
proof (induction subs arbitrary: full names k)
  case Nil
  then show ?case by simp
next
  case (Cons s subs)
  let ?full = "full @ s @ ''/''"
  let ?names = "add_tags_loop ?full tags names"
  show ?case
  proof (cases "k = 1")
    case True
    have "?full @ tag \<in> set ?names"
      using Cons.prems(1) by (simp add: set_add_tags_loop)
    then have "?full @ tag \<in> set (subfolders_loop tags ?full subs ?names)"
      using subfolders_loop_mono by blast
    with True show ?thesis by (simp add: Let_def)
  next
    case False
    with Cons.prems obtain j where k: "k = Suc j" and j: "0 < j" "j \<le> length subs"
      by (cases k) auto
    have "?full @ concat (map (\<lambda>s. s @ ''/'') (take j subs)) @ tag
            \<in> set (subfolders_loop tags ?full subs ?names)"
      using Cons.prems(1) j by (rule Cons.IH)
    then show ?thesis by (simp add: k Let_def)
  qed
qed

lemma subfolder_files_loop_mono:
  "set names \<subseteq> set (subfolder_files_loop n files names)"
proof (induction files arbitrary: names)
  case Nil
  show ?case by simp
next
  case (Cons f files)
  show ?case
    using Cons.IH subfolders_loop_mono
    by (auto simp add: Let_def split: option.splits) blast
qed

lemma subfolder_files_loop_candidate:
  assumes "f \<in> set files" and "frontmatter_tags f = Some file_tags"
    and "tag \<in> set file_tags" and "0 < k"
    and "k \<le> length (js_split (CHR ''/'') (slice_from n (parent_path f)))"
  shows "concat (map (\<lambda>s. s @ ''/'')
                  (take k (js_split (CHR ''/'') (slice_from n (parent_path f)))))
           @ replace_first (CHR ''/'') (CHR '' '') tag
         \<in> set (subfolder_files_loop n files names)"
  using assms(1)
proof (induction files arbitrary: names)
  case Nil
  then show ?case by simp
next
  case (Cons g files)
  let ?tags = "map (replace_first (CHR ''/'') (CHR '' '')) file_tags"
  let ?subs = "js_split (CHR ''/'') (slice_from n (parent_path f))"
  let ?name = "concat (map (\<lambda>s. s @ ''/'') (take k ?subs))
                 @ replace_first (CHR ''/'') (CHR '' '') tag"
  show ?case
  proof (cases "g = f")
    case True
    have "replace_first (CHR ''/'') (CHR '' '') tag \<in> set ?tags"
      using assms(3) by simp
    then have "[] @ ?name \<in> set (subfolders_loop ?tags [] ?subs names)"
      using assms(4,5) by (rule subfolders_loop_prefixes)
    then have "?name \<in> set (subfolder_files_loop n files (subfolders_loop ?tags [] ?subs names))"
      using subfolder_files_loop_mono by auto
    moreover have "file_tags \<noteq> []" using assms(3) by auto
    ultimately show ?thesis using True assms(2) by (simp add: Let_def)
  next
    case False
    with Cons.prems have "f \<in> set files" by simp
    then have "\<And>names. ?name \<in> set (subfolder_files_loop n files names)"
      by (rule Cons.IH)
    then show ?thesis by (simp add: Let_def split: option.splits)
  qed
qed

lemma existing_tag_names_candidate:
  assumes "f \<in> set (vault_files app)"
    and "startsWith (parent_path f) (things_path @ ''/'')"
    and "frontmatter_tags f = Some file_tags"
    and "tag \<in> set file_tags" and "0 < k"
    and "k \<le> length (js_split (CHR ''/'')
                        (slice_from (length things_path + 1) (parent_path f)))"
  shows "concat (map (\<lambda>s. s @ ''/'')
                  (take k (js_split (CHR ''/'')
                             (slice_from (length things_path + 1) (parent_path f)))))
           @ replace_first (CHR ''/'') (CHR '' '') tag
         \<in> set (existing_tag_names cfg app True things_path)"
proof -
  have "f \<in> set (filter (\<lambda>file. startsWith (parent_path file) (things_path @ ''/''))
                    (vault_files app))"
    using assms(1,2) by simp
  from subfolder_files_loop_candidate [OF this assms(3,4,5,6)]
  show ?thesis
    by (simp add: existing_tag_names_def existing_subfolder_tag_names_def Let_def)
qed

lemma existing_tag_names_listed:
  assumes "kwarg kwargs av_calculate_subfolder_uninitiated (CALCULATE_SUBFOLDER_UNINITIATED cfg)"
    and "name \<in> set (existing_tag_names cfg app True
                        (trimSlashes (kwarg kwargs av_things_path (THINGS_PATH cfg))))"
  shows "name \<in> set (uninitiated (getAllViews cfg app kwargs))
           \<union> set (initiated (getAllViews cfg app kwargs))"
  using assms
  by (auto simp add: set_uninitiated_getAllViews possible_uninitiated_view_name_arrays_def
      Let_def)

text \<open>
  The prefixes of the subfolder derivation: when it is enabled, for every thing whose
  parent folder is a subfolder of the (trimmed) things root, with the subfolder segments
  \<open>s1/../sN\<close>, for every tag of the thing and every \<open>k\<close> from 1 to \<open>N\<close>, the name
  \<open>s1/../sk/\<close> followed by the tag after \<^verbatim>\<open>replace("/", " ")\<close> is among the candidates
  \<^verbatim>\<open>existing_tag_names\<close> of \<^verbatim>\<open>getAllViews\<close>, and so is listed as uninitiated unless it
  is initiated. A tag "x" on a thing in "a/b" gives "a/x" and "a/b/x".
\<close>

lemma getAllViews_subfolder_candidates:
  assumes "kwarg kwargs av_calculate_subfolder_uninitiated (CALCULATE_SUBFOLDER_UNINITIATED cfg)"
    and "things_path = trimSlashes (kwarg kwargs av_things_path (THINGS_PATH cfg))"
    and "f \<in> set (vault_files app)"
    and "startsWith (parent_path f) (things_path @ ''/'')"
    and "subfolders = js_split (CHR ''/'') (slice_from (length things_path + 1) (parent_path f))"
    and "frontmatter_tags f = Some file_tags"
    and "tag \<in> set file_tags"
    and "0 < k" and "k \<le> length subfolders"
    and "name = concat (map (\<lambda>s. s @ ''/'') (take k subfolders))
                  @ replace_first (CHR ''/'') (CHR '' '') tag"
  shows "name \<in> set (existing_tag_names cfg app True things_path)
         \<and> name \<in> set (uninitiated (getAllViews cfg app kwargs))
                    \<union> set (initiated (getAllViews cfg app kwargs))"
proof -
  have c: "name \<in> set (existing_tag_names cfg app True things_path)"
    using existing_tag_names_candidate [OF assms(3,4,6,7,8), of cfg] assms(5,9,10)
    by simp
  with existing_tag_names_listed [OF assms(1), of name app] assms(2)
  show ?thesis by simp
qed

lemma vault_with_subfolders_file:
  "\<lparr> file_path = ''Things/a/b/n.md'', parent_path = ''Things/a/b'',
     frontmatter_tags = Some [''x'', ''p/q''] \<rparr> \<in> set (vault_files vault_with_subfolders)"
  by (simp add: vault_with_subfolders_def)

lemma default_things_path:
  "trimSlashes (kwarg None av_things_path (THINGS_PATH default_user)) = ''Things''"
  by (simp add: kwarg_def default_user_def trimSlashes_def startsWith_def endsWith_def)

lemma initiated_vault_with_subfolders:
  "initiated (getAllViews default_user vault_with_subfolders None) = [''proj web'']"
  by (simp add: initiated_getAllViews kwarg_def getInitiatedViewNames_def
      vault_with_subfolders_def default_user_def trimSlashes_def startsWith_def endsWith_def
      slice_to_neg_def)

lemma getAllViews_subfolder_candidates_example:
  "kwarg None av_calculate_subfolder_uninitiated (CALCULATE_SUBFOLDER_UNINITIATED default_user)
   \<and> \<lparr> file_path = ''Things/a/b/n.md'', parent_path = ''Things/a/b'',
         frontmatter_tags = Some [''x'', ''p/q''] \<rparr> \<in> set (vault_files vault_with_subfolders)
   \<and> startsWith ''Things/a/b'' (''Things'' @ ''/'')
   \<and> js_split (CHR ''/'') (slice_from (length ''Things'' + 1) ''Things/a/b'') = [''a'', ''b'']
   \<and> ''a/x'' \<in> set (uninitiated (getAllViews default_user vault_with_subfolders None))
   \<and> ''a/b/x'' \<in> set (uninitiated (getAllViews default_user vault_with_subfolders None))
   \<and> ''a/b/p q'' \<in> set (uninitiated (getAllViews default_user vault_with_subfolders None))"
proof -
  let ?f = "\<lparr> file_path = ''Things/a/b/n.md'', parent_path = ''Things/a/b'',
              frontmatter_tags = Some [''x'', ''p/q''] \<rparr>"
  have calc: "kwarg None av_calculate_subfolder_uninitiated
                (CALCULATE_SUBFOLDER_UNINITIATED default_user)"
    by (simp add: kwarg_def default_user_def)
  have tp: "''Things'' = trimSlashes (kwarg None av_things_path (THINGS_PATH default_user))"
    by (simp add: default_things_path)
  have sw: "startsWith (parent_path ?f) (''Things'' @ ''/'')"
    by (simp add: startsWith_def)
  have subs: "[''a'', ''b''] = js_split (CHR ''/'') (slice_from (length ''Things'' + 1) (parent_path ?f))"
    by (simp add: slice_from_def)
  have tags: "frontmatter_tags ?f = Some [''x'', ''p/q'']"
    by simp
  have "''a/x'' \<in> set (uninitiated (getAllViews default_user vault_with_subfolders None))
                   \<union> set (initiated (getAllViews default_user vault_with_subfolders None))"
    using getAllViews_subfolder_candidates
        [where tag = "''x''" and k = 1 and name = "''a/x''",
         OF calc tp vault_with_subfolders_file sw subs tags]
    by simp
  moreover
  have "''a/b/x'' \<in> set (uninitiated (getAllViews default_user vault_with_subfolders None))
                   \<union> set (initiated (getAllViews default_user vault_with_subfolders None))"
    using getAllViews_subfolder_candidates
        [where tag = "''x''" and k = 2 and name = "''a/b/x''",
         OF calc tp vault_with_subfolders_file sw subs tags]
    by simp
  moreover
  have "''a/b/p q'' \<in> set (uninitiated (getAllViews default_user vault_with_subfolders None))
                   \<union> set (initiated (getAllViews default_user vault_with_subfolders None))"
    using getAllViews_subfolder_candidates
        [where tag = "''p/q''" and k = 2 and name = "''a/b/p q''",
         OF calc tp vault_with_subfolders_file sw subs tags]
    by simp
  ultimately show ?thesis
    using calc vault_with_subfolders_file sw subs
    by (simp add: initiated_vault_with_subfolders)
qed

text \<open>
  The earlier revision (\<^verbatim>\<open>src/config/core.js\<close>, line 582) looks for the things in the
  subfolders of the views path: with the default paths the thing in "Things/a/b" gives no
  candidate.
\<close>

lemma existing_subfolder_tag_names_earlier:
  "existing_subfolder_tag_names ''Views'' ''Things'' vault_with_subfolders = []
   \<and> existing_subfolder_tag_names ''Things'' ''Things'' vault_with_subfolders
       = [''a/x'', ''a/p q'', ''a/b/x'', ''a/b/p q'']"
  by (simp add: existing_subfolder_tag_names_def vault_with_subfolders_def startsWith_def
      slice_from_def set_add_def)

lemma trimSlashes_Things: "trimSlashes ''Things'' = ''Things''"
  by (simp add: trimSlashes_def startsWith_def endsWith_def)

lemma existing_tag_names_nested:
  "existing_tag_names default_user vault_with_nested_tag True ''Things''
     = [''p q/r'', ''a/p q/r'']"
  by (simp add: existing_tag_names_def getExistingTagNames_def trimSlashes_Things
      existing_subfolder_tag_names_def vault_with_nested_tag_def startsWith_def slice_from_def
      set_add_def)

lemma initiated_nested:
  "initiated (getAllViews default_user vault_with_nested_tag None) = []"
  by (simp add: initiated_getAllViews kwarg_def getInitiatedViewNames_def
      vault_with_nested_tag_def default_user_def trimSlashes_def startsWith_def endsWith_def)

lemma arrays_nested:
  "possible_uninitiated_view_name_arrays default_user vault_with_nested_tag True ''Things'' [] []
     = [[''p q/r'', ''a/p q/r''], [], [''All'', ''Untagged'', ''Others''], [], [''Archive'']]"
  by (simp add: possible_uninitiated_view_name_arrays_def existing_tag_names_nested
      CORE_CUSTOM_VIEWS_default CORE_CUSTOM_TAGS_default object_keys_def)

lemma uninitiated_nested:
  "uninitiated (getAllViews default_user vault_with_nested_tag None)
     = [''All'', ''Archive'', ''Others'', ''Untagged'', ''a/p q/r'', ''p q/r'']"
proof -
  have k: "kwarg None av_calculate_subfolder_uninitiated (CALCULATE_SUBFOLDER_UNINITIATED default_user) = True"
    "kwarg None av_custom_views (CUSTOM_VIEWS default_user) = []"
    "kwarg None av_custom_tags (CUSTOM_TAGS default_user) = []"
    "kwarg None av_views_path (VIEWS_PATH default_user) = ''Views''"
    by (simp_all add: kwarg_def default_user_def)
  have g: "getInitiatedViewNames default_user vault_with_nested_tag (Some (trimSlashes ''Views'')) = []"
    by (simp add: getInitiatedViewNames_def vault_with_nested_tag_def trimSlashes_def
        startsWith_def endsWith_def)
  show ?thesis
    by (simp add: getAllViews_def Let_def k default_things_path g arrays_nested)
qed

text \<open>
  Claim C3 on the code: the claim says that the candidates carry the tag with its
  separator already converted. For a thing in the subfolder "a" of the things root with
  the tag "p/q/r", \<^verbatim>\<open>replace("/", " ")\<close> converts the first "/" only: the candidate is
  "a/p q/r", which still holds the separator of the tag, and "a/p q r" is not listed.
  The regular matcher matches the tag under the name "a/p q r" and not under the listed
  name "a/p q/r".
\<close>

theorem getAllViews_subfolder_tag_separator:
  "existing_tag_names default_user vault_with_nested_tag True ''Things''
     = [''p q/r'', ''a/p q/r'']
   \<and> uninitiated (getAllViews default_user vault_with_nested_tag None)
     = [''All'', ''Archive'', ''Others'', ''Untagged'', ''a/p q/r'', ''p q/r'']
   \<and> initiated (getAllViews default_user vault_with_nested_tag None) = []
   \<and> ''a/p q r'' \<notin> set (uninitiated (getAllViews default_user vault_with_nested_tag None))
   \<and> regularViewMatchesTags ''a/p q r'' [''p/q/r''] = True
   \<and> regularViewMatchesTags ''a/p q/r'' [''p/q/r''] = False"
proof -
  have r1: "regularViewMatchesTags ''a/p q r'' [''p/q/r'']"
    by (simp add: regularViewMatchesTags_def trimSlashes_def startsWith_def endsWith_def)
  have r2: "\<not> regularViewMatchesTags ''a/p q/r'' [''p/q/r'']"
    by (simp add: regularViewMatchesTags_def trimSlashes_def startsWith_def endsWith_def)
  show ?thesis
    using r1 r2 by (simp add: existing_tag_names_nested uninitiated_nested initiated_nested)
qed

theorem getAllViews_subfolder_tag_separator_witness:
  "''a/p q/r'' \<in> set (uninitiated (getAllViews default_user vault_with_nested_tag None))
   \<and> ''a/p q r'' \<notin> set (uninitiated (getAllViews default_user vault_with_nested_tag None))"
  using getAllViews_subfolder_tag_separator by simp

end
